theory Spec2Isabelle
  imports Main "HOL-Library.Sublist"
begin

section \<open>Text\<close>

text \<open>
  Python \<open>str\<close> values are modelled as \<^typ>\<open>string\<close>. The operations of \<open>str\<close> and
  \<open>re\<close> that the program uses are modelled on ASCII text: \<open>\d\<close> is one of \<open>0\<close>..\<open>9\<close>,
  \<open>str.lower\<close> maps \<open>A\<close>..\<open>Z\<close>, \<open>str.strip\<close> removes the ASCII characters for which
  \<open>str.isspace\<close> holds. A character outside ASCII is the sequence of its UTF-8 bytes,
  which these operations leave alone.
\<close>

definition is_digit :: "char \<Rightarrow> bool" where
  "is_digit c = (c \<in> set ''0123456789'')"

definition digit_val :: "char \<Rightarrow> nat" where
  "digit_val c = of_char c - 48"

definition digit_char :: "nat \<Rightarrow> char" where
  "digit_char d = ''0123456789'' ! d"

text \<open>The number that a string of decimal digits denotes; Python integers are unbounded.\<close>

definition py_int :: "string \<Rightarrow> nat" where
  "py_int ds = foldl (\<lambda>n c. 10 * n + digit_val c) 0 ds"

text \<open>The decimal digits of a non-negative integer.\<close>

fun str_nat :: "nat \<Rightarrow> string" where
  "str_nat n = (if n < 10 then [digit_char n] else str_nat (n div 10) @ [digit_char (n mod 10)])"

declare str_nat.simps [simp del]

text \<open>The text of a raised exception, as \<open>str(e)\<close> and \<open>{e}\<close> render it.\<close>

type_synonym exn = string

text \<open>
  The interpreter limits the number of digits of a conversion between \<open>str\<close> and \<open>int\<close>:
  with the limit \<open>lim\<close> (\<open>sys.get_int_max_str_digits()\<close>, 4300 unless it was changed, and
  0 for no limit), \<open>int(s)\<close> raises \<open>ValueError\<close> when \<open>s\<close> has more than \<open>lim\<close> digits,
  leading zeros counted, and \<open>str(n)\<close> raises it when \<open>n\<close> has more than \<open>lim\<close> digits.
\<close>

definition int_limit_error :: "nat \<Rightarrow> nat \<Rightarrow> exn" where
  "int_limit_error lim n =
     ''Exceeds the limit ('' @ str_nat lim @ '' digits) for integer string conversion: value has ''
     @ str_nat n @ '' digits; use sys.set_int_max_str_digits() to increase the limit''"

definition str_limit_error :: "nat \<Rightarrow> exn" where
  "str_limit_error lim =
     ''Exceeds the limit ('' @ str_nat lim @ '' digits) for integer string conversion''
     @ ''; use sys.set_int_max_str_digits() to increase the limit''"

text \<open>\<open>int(s)\<close> on a string of decimal digits.\<close>

definition int_of_str :: "nat \<Rightarrow> string \<Rightarrow> exn + nat" where
  "int_of_str lim ds =
     (if lim \<noteq> 0 \<and> lim < length ds then Inl (int_limit_error lim (length ds))
      else Inr (py_int ds))"

text \<open>\<open>str(n)\<close> (and \<open>f"{n}"\<close>) of a non-negative integer.\<close>

definition str_of_nat :: "nat \<Rightarrow> nat \<Rightarrow> exn + string" where
  "str_of_nat lim n =
     (if lim \<noteq> 0 \<and> lim < length (str_nat n) then Inl (str_limit_error lim)
      else Inr (str_nat n))"

text \<open>
  \<open>re.compile(r'^post\d+$').search(s)\<close>: without \<open>re.MULTILINE\<close>, \<open>^\<close> matches at the
  start of the string only, and \<open>$\<close> matches at the end of the string and also just before
  a newline that is the last character of the string.
\<close>

definition re_search_post_id :: "string \<Rightarrow> bool" where
  "re_search_post_id s =
     (let body = (if s \<noteq> [] \<and> last s = CHR ''\<newline>'' then butlast s else s)
      in take 4 body = ''post'' \<and> drop 4 body \<noteq> [] \<and> list_all is_digit (drop 4 body))"

text \<open>
  \<open>re.match(r'post(\d+)', s)\<close>: anchored at the start, the group is the longest run of
  digits after the prefix; \<open>None\<close> when the prefix is missing or no digit follows it.
\<close>

definition re_match_post :: "string \<Rightarrow> string option" where
  "re_match_post s =
     (if take 4 s = ''post'' \<and> takeWhile is_digit (drop 4 s) \<noteq> []
      then Some (takeWhile is_digit (drop 4 s)) else None)"

text \<open>\<open>str.isspace\<close> on one ASCII character.\<close>

definition py_isspace :: "char \<Rightarrow> bool" where
  "py_isspace c = (c \<in> set [CHR 0x09, CHR ''\<newline>'', CHR 0x0B, CHR 0x0C, CHR 0x0D,
                              CHR 0x1C, CHR 0x1D, CHR 0x1E, CHR 0x1F, CHR '' ''])"

text \<open>\<open>s.strip()\<close>: the whitespace at both ends is removed.\<close>

definition strip :: "string \<Rightarrow> string" where
  "strip s = rev (dropWhile py_isspace (rev (dropWhile py_isspace s)))"

definition lower_char :: "char \<Rightarrow> char" where
  "lower_char c =
     (case map_of (zip ''ABCDEFGHIJKLMNOPQRSTUVWXYZ'' ''abcdefghijklmnopqrstuvwxyz'') c of
        Some l \<Rightarrow> l | None \<Rightarrow> c)"

text \<open>\<open>s.lower()\<close>.\<close>

definition lower :: "string \<Rightarrow> string" where
  "lower s = map lower_char s"

text \<open>\<open>s.endswith(suffix)\<close>.\<close>

definition endswith :: "string \<Rightarrow> string \<Rightarrow> bool" where
  "endswith s suf = (length suf \<le> length s \<and> drop (length s - length suf) s = suf)"

text \<open>\<open>s.split(sep)\<close> for a separator of one character: at least one piece, also for \<open>''\<close>.\<close>

fun split :: "char \<Rightarrow> string \<Rightarrow> string list" where
  "split sep [] = [[]]"
| "split sep (c # cs) =
     (if c = sep then [] # split sep cs
      else (case split sep cs of w # ws \<Rightarrow> (c # w) # ws | [] \<Rightarrow> [[c]]))"

text \<open>\<open>sep.join(xs)\<close>.\<close>

fun join :: "string \<Rightarrow> string list \<Rightarrow> string" where
  "join sep [] = []"
| "join sep [x] = x"
| "join sep (x # y # ys) = x @ sep @ join sep (y # ys)"

text \<open>\<open>os.path.basename\<close> on a POSIX path: what follows the last slash.\<close>

definition basename :: "string \<Rightarrow> string" where
  "basename p = rev (takeWhile (\<lambda>c. c \<noteq> CHR ''/'') (rev p))"

section \<open>The document tree\<close>

text \<open>
  The tree that \<open>BeautifulSoup(content, 'html.parser')\<close> builds: a \<open>Tag\<close> has a name, a
  dictionary of attributes (an association list read with \<^const>\<open>map_of\<close>) and its
  \<open>contents\<close>; text is a \<open>NavigableString\<close>. The \<open>BeautifulSoup\<close> object itself is the list
  of its top-level nodes.
\<close>

datatype node =
    Tag string "(string \<times> string) list" "node list"
  | NavigableString string

type_synonym soup = "node list"

text \<open>\<open>.descendants\<close>: every node below the root, in document order.\<close>

fun descendants :: "node list \<Rightarrow> node list" where
  "descendants [] = []"
| "descendants (Tag nm ats cs # ns) = Tag nm ats cs # descendants cs @ descendants ns"
| "descendants (NavigableString s # ns) = NavigableString s # descendants ns"

text \<open>\<open>tag.get(key, default)\<close>.\<close>

fun get :: "node \<Rightarrow> string \<Rightarrow> string \<Rightarrow> string" where
  "get (Tag nm ats cs) k d = (case map_of ats k of Some v \<Rightarrow> v | None \<Rightarrow> d)"
| "get (NavigableString s) k d = d"

text \<open>
  The filter of \<open>soup.find_all('article', id=re.compile(r'^post\d+$'))\<close>: a tag named
  \<open>article\<close> that has an \<open>id\<close> attribute which the compiled pattern finds a match in.
\<close>

fun is_post_article :: "node \<Rightarrow> bool" where
  "is_post_article (Tag nm ats cs) =
     (nm = ''article'' \<and> (case map_of ats ''id'' of Some v \<Rightarrow> re_search_post_id v | None \<Rightarrow> False))"
| "is_post_article (NavigableString s) = False"

definition find_all :: "(node \<Rightarrow> bool) \<Rightarrow> soup \<Rightarrow> node list" where
  "find_all P sp = filter P (descendants sp)"

section \<open>Identifier allocation\<close>

text \<open>
  The loop of \<open>find_next_post_id\<close> over the posts that are left, with the running maximum.
  It ends with the maximum, or with the exception that \<open>int\<close> raises.
\<close>

fun max_id_loop :: "nat \<Rightarrow> nat \<Rightarrow> node list \<Rightarrow> exn + nat" where
  "max_id_loop lim max_id [] = Inr max_id"
| "max_id_loop lim max_id (post # posts) =
     (let post_id = get post ''id'' ''''
      in case re_match_post post_id of
           None \<Rightarrow> max_id_loop lim max_id posts
         | Some ds \<Rightarrow>
             (case int_of_str lim ds of
                Inl e \<Rightarrow> Inl e
              | Inr current_id \<Rightarrow>
                  max_id_loop lim (if current_id > max_id then current_id else max_id) posts))"

text \<open>
  \<open>find_next_post_id\<close> under the digit limit \<open>lim\<close> of the interpreter: the next
  identifier, or the exception that a conversion raises.
\<close>

definition find_next_post_id :: "nat \<Rightarrow> soup \<Rightarrow> exn + string" where
  "find_next_post_id lim sp =
     (let posts = find_all is_post_article sp
      in case max_id_loop lim 0 posts of
           Inl e \<Rightarrow> Inl e
         | Inr max_id \<Rightarrow>
             (case str_of_nat lim (max_id + 1) of
                Inl e \<Rightarrow> Inl e
              | Inr digits \<Rightarrow> Inr (''post'' @ digits)))"

section \<open>Searching and changing the tree\<close>

text \<open>
  A node of the tree is referred to by its path: the index among the top-level nodes, then
  the index in the \<open>contents\<close> of that tag, and so on. \<open>soup.find(...)\<close> returns the first
  match in document order, here with its path, or \<open>None\<close>.
\<close>

fun sibling :: "nat list \<times> node \<Rightarrow> nat list \<times> node" where
  "sibling (i # p, n) = (Suc i # p, n)"
| "sibling ([], n) = ([], n)"

fun soup_find :: "(node \<Rightarrow> bool) \<Rightarrow> node list \<Rightarrow> (nat list \<times> node) option" where
  "soup_find P [] = None"
| "soup_find P (Tag nm ats cs # ns) =
     (if P (Tag nm ats cs) then Some ([0], Tag nm ats cs)
      else (case soup_find P cs of
              Some (p, n) \<Rightarrow> Some (0 # p, n)
            | None \<Rightarrow> map_option sibling (soup_find P ns)))"
| "soup_find P (NavigableString s # ns) =
     (if P (NavigableString s) then Some ([0], NavigableString s)
      else map_option sibling (soup_find P ns))"

fun contents :: "node \<Rightarrow> node list" where
  "contents (Tag nm ats cs) = cs"
| "contents (NavigableString s) = []"

fun node_at :: "node list \<Rightarrow> nat list \<Rightarrow> node option" where
  "node_at ns [] = None"
| "node_at ns [i] = (if i < length ns then Some (ns ! i) else None)"
| "node_at ns (i # j # p) = (if i < length ns then node_at (contents (ns ! i)) (j # p) else None)"

text \<open>\<open>tag.insert(0, new_child)\<close>: the new child becomes the first of the \<open>contents\<close>.\<close>

fun insert0 :: "node \<Rightarrow> node \<Rightarrow> node" where
  "insert0 new_child (Tag nm ats cs) = Tag nm ats (new_child # cs)"
| "insert0 new_child (NavigableString s) = NavigableString s"

text \<open>
  The tree is mutated in place through the reference that \<open>find\<close> returned: the node at
  the path is replaced, everything else stays.
\<close>

fun update_at :: "(node \<Rightarrow> node) \<Rightarrow> nat list \<Rightarrow> node list \<Rightarrow> node list" where
  "update_at f [] ns = ns"
| "update_at f [i] ns = (if i < length ns then ns[i := f (ns ! i)] else ns)"
| "update_at f (i # j # p) ns =
     (if i < length ns
      then ns[i := (case ns ! i of
                      Tag nm ats cs \<Rightarrow> Tag nm ats (update_at f (j # p) cs)
                    | NavigableString s \<Rightarrow> NavigableString s)]
      else ns)"

fun is_main_blogPosts :: "node \<Rightarrow> bool" where
  "is_main_blogPosts (Tag nm ats cs) = (nm = ''main'' \<and> map_of ats ''id'' = Some ''blogPosts'')"
| "is_main_blogPosts (NavigableString s) = False"

fun is_main :: "node \<Rightarrow> bool" where
  "is_main (Tag nm ats cs) = (nm = ''main'')"
| "is_main (NavigableString s) = False"

fun is_article :: "node \<Rightarrow> bool" where
  "is_article (Tag nm ats cs) = (nm = ''article'')"
| "is_article (NavigableString s) = False"

section \<open>Fragment synthesis\<close>

text \<open>The cleaned tag list: split at commas, each piece stripped, empty pieces dropped.\<close>

definition tags_list_of :: "string \<Rightarrow> string list" where
  "tags_list_of tags_str = map strip (filter (\<lambda>tag. strip tag \<noteq> []) (split CHR '','' tags_str))"

definition data_tags_attr_of :: "string list \<Rightarrow> string" where
  "data_tags_attr_of tags_list = join '', '' tags_list"

definition tag_span :: "string \<Rightarrow> string" where
  \<open>tag_span tag = ''<span class="tag" data-tag="'' @ lower tag @ ''">'' @ tag @ ''</span>''\<close>

definition tags_html_of :: "string list \<Rightarrow> string" where
  "tags_html_of tags_list = strip (concat (map (\<lambda>tag. tag_span tag @ ''\<newline>          '') tags_list))"

definition normalize_filename :: "string \<Rightarrow> string" where
  "normalize_filename post_filename =
     (if \<not> endswith (lower post_filename) ''.html'' then post_filename @ ''.html'' else post_filename)"

text \<open>The bullet and the arrow of the template, as the UTF-8 bytes of U+2022 and U+2192.\<close>

definition bullet :: string where
  "bullet = [CHR 0xE2, CHR 0x80, CHR 0xA2]"

definition arrow :: string where
  "arrow = [CHR 0xE2, CHR 0x86, CHR 0x92]"

text \<open>
  The template of the new post is an f-string of one \<open>article\<close> element with five children,
  each on a line of its own, indented by eight spaces. The children are named here; the
  line breaks and the indentation are those of the source.
\<close>

definition article_open :: "string \<Rightarrow> string \<Rightarrow> string \<Rightarrow> string" where
  \<open>article_open data_tags_attr date_str next_id =
     ''<article class="post-card" data-tags="'' @ data_tags_attr @ ''" data-date="'' @ date_str
     @ ''" id="'' @ next_id @ ''">''\<close>

definition post_meta :: "string \<Rightarrow> string \<Rightarrow> string" where
  \<open>post_meta date_str read_time =
     ''<div class="post-meta">\<newline>''
     @ ''          <span>'' @ date_str @ ''</span>\<newline>''
     @ ''          <span>'' @ bullet @ ''</span>\<newline>''
     @ ''          <span>'' @ read_time @ ''</span>\<newline>''
     @ ''        </div>''\<close>

definition heading :: "string \<Rightarrow> string \<Rightarrow> string" where
  \<open>heading post_filename title = ''<h2><a href="'' @ post_filename @ ''">'' @ title @ ''</a></h2>''\<close>

definition post_tags :: "string \<Rightarrow> string" where
  \<open>post_tags tags_html =
     ''<div class="post-tags">\<newline>''
     @ ''          '' @ tags_html @ ''\<newline>''
     @ ''        </div>''\<close>

definition post_excerpt :: "string \<Rightarrow> string" where
  \<open>post_excerpt description =
     ''<p class="post-excerpt">\<newline>''
     @ ''          '' @ description @ ''\<newline>''
     @ ''        </p>''\<close>

definition read_more :: "string \<Rightarrow> string" where
  \<open>read_more post_filename =
     ''<a href="'' @ post_filename @ ''" class="read-more">Continue Reading <span class="arrow">''
     @ arrow @ ''</span></a>''\<close>

text \<open>
  Steps 4 and 5 of \<open>add_blog_post\<close> after the validation of the tags: the markup of the new
  post, over the cleaned tags, the normalized filename and the other fields as they were
  supplied.
\<close>

definition new_post_html_str_of ::
  "string \<Rightarrow> string \<Rightarrow> string list \<Rightarrow> string \<Rightarrow> string \<Rightarrow> string \<Rightarrow> string \<Rightarrow> string" where
  \<open>new_post_html_str_of next_id title tags_list description read_time date_str post_filename =
     (let data_tags_attr = data_tags_attr_of tags_list;
          tags_html = tags_html_of tags_list;
          post_filename = normalize_filename post_filename
      in article_open data_tags_attr date_str next_id @ ''\<newline>''
         @ ''        '' @ post_meta date_str read_time @ ''\<newline>''
         @ ''        '' @ heading post_filename title @ ''\<newline>''
         @ ''        '' @ post_tags tags_html @ ''\<newline>''
         @ ''        '' @ post_excerpt description @ ''\<newline>''
         @ ''        '' @ read_more post_filename @ ''\<newline>''
         @ ''      </article>'')\<close>

section \<open>Files, the parser and the outcomes of input and output\<close>

text \<open>
  The world the operation acts on: what is at each path, a regular file with its content
  or a directory, and what was printed on standard output.
\<close>

datatype entry = File string | Directory

record world =
  files :: "string \<rightharpoonup> entry"
  stdout :: "string list"

text \<open>
  What the program runs on is a parameter of the model: the parser
  \<open>BeautifulSoup(markup, 'html.parser')\<close> and the serializer
  \<open>soup.prettify(formatter="html5")\<close> of the third-party HTML library, each of which may
  raise, and the digit limit of the interpreter.
\<close>

record lib =
  html_parse :: "string \<Rightarrow> exn + soup"
  prettify :: "soup \<Rightarrow> exn + string"
  int_max_str_digits :: nat

text \<open>
  What the operating system does at the places where the operation touches a file, chosen
  by the environment:
  \<^item> \<open>dir_fault\<close>: the text of the error that opening a directory as a file raises;
  \<^item> \<open>read_fault\<close>: opening or reading the document raises;
  \<^item> \<open>copy_fault\<close>: \<open>shutil.copy2\<close> raises, having left the destination alone (\<open>None\<close>) or
    holding the first \<open>k\<close> characters of the source (\<open>Some k\<close>); a destination that is
    the source file under another name (\<open>SameFileError\<close>) is such a fault;
  \<^item> \<open>open_fault\<close>: \<open>open(path, 'w')\<close> raises, so the file is not truncated;
  \<^item> \<open>write_fault\<close>: the file was opened, and so truncated, and writing raises after \<open>k\<close>
    characters have reached the file.
\<close>

record io =
  dir_fault :: exn
  read_fault :: "exn option"
  copy_fault :: "(exn \<times> nat option) option"
  open_fault :: "exn option"
  write_fault :: "(exn \<times> nat) option"

definition set_file :: "string \<Rightarrow> string \<Rightarrow> world \<Rightarrow> world" where
  "set_file path content w = w\<lparr>files := (files w)(path \<mapsto> File content)\<rparr>"

text \<open>
  How a call ends: it returns the pair of the success flag and the message, or an
  exception leaves it uncaught.
\<close>

datatype result = Return bool string | Raise exn

definition print :: "string \<Rightarrow> world \<Rightarrow> world" where
  "print line w = w\<lparr>stdout := stdout w @ [line]\<rparr>"

section \<open>The insertion operation\<close>

text \<open>
  Step 3 of \<open>add_blog_post\<close>: the container is the first \<open>main\<close> tag whose \<open>id\<close> is
  \<open>blogPosts\<close>, else the first \<open>main\<close> tag, and then a warning is printed. The result is
  the reference to the container and whether the fallback was taken.
\<close>

definition find_insertion_point :: "soup \<Rightarrow> ((nat list \<times> node) \<times> bool) option" where
  "find_insertion_point sp =
     (case soup_find is_main_blogPosts sp of
        Some main_content \<Rightarrow> Some (main_content, False)
      | None \<Rightarrow>
          (case soup_find is_main sp of
             None \<Rightarrow> None
           | Some main_content \<Rightarrow> Some (main_content, True)))"

definition fallback_warning :: string where
  \<open>fallback_warning =
     ''Warning: Found <main> tag but not specific id='blogPosts'. Inserting into first <main>.''\<close>

definition no_container_error :: string where
  \<open>no_container_error = ''Error: Could not find <main id='blogPosts'> tag or <main> tag.''\<close>

definition no_tag_error :: string where
  "no_tag_error = ''Error: Please provide at least one tag.''"

definition read_error :: "string \<Rightarrow> exn \<Rightarrow> string" where
  "read_error html_file_path e =
     ''Error reading file '' @ [CHR 0x27] @ html_file_path @ [CHR 0x27] @ '': '' @ e"

definition write_error :: "string \<Rightarrow> exn \<Rightarrow> string" where
  "write_error html_file_path e =
     ''Error writing file '' @ [CHR 0x27] @ html_file_path @ [CHR 0x27] @ '': '' @ e"

text \<open>
  Where \<open>shutil.copy2(src, dst)\<close> puts the copy: at \<open>dst\<close>, or, when \<open>dst\<close> is a directory,
  inside it under the file name of \<open>src\<close> (\<open>os.path.join(dst, os.path.basename(src))\<close>, for a
  \<open>dst\<close> that does not end with a slash).
\<close>

definition copy_target :: "world \<Rightarrow> string \<Rightarrow> string \<Rightarrow> string" where
  "copy_target w src dst =
     (if files w dst = Some Directory then dst @ ''/'' @ basename src else dst)"

text \<open>
  Step 7: the backup, then the overwrite. \<open>content\<close> is what the document file holds,
  \<open>sp\<close> the tree after the insertion. The copy raises when its target is a directory, or
  when the environment says so; every exception of this step is caught.
\<close>

definition write_back :: "lib \<Rightarrow> io \<Rightarrow> world \<Rightarrow> string \<Rightarrow> string \<Rightarrow> string \<Rightarrow> soup \<Rightarrow> world \<times> result" where
  "write_back l env w html_file_path content title sp =
     (let backup_path = html_file_path @ ''.bak'';
          target = copy_target w html_file_path backup_path
      in if files w target = Some Directory then
           (w, Return False
                 (write_error html_file_path
                    (case copy_fault env of Some (e, left) \<Rightarrow> e | None \<Rightarrow> dir_fault env)))
         else
         case copy_fault env of
           Some (e, None) \<Rightarrow> (w, Return False (write_error html_file_path e))
         | Some (e, Some k) \<Rightarrow>
             (set_file target (take k content) w, Return False (write_error html_file_path e))
         | None \<Rightarrow>
             (let w1 = set_file target content w
              in case open_fault env of
                   Some e \<Rightarrow> (w1, Return False (write_error html_file_path e))
                 | None \<Rightarrow>
                     (case prettify l sp of
                        Inl e \<Rightarrow>
                          (set_file html_file_path [] w1,
                           Return False (write_error html_file_path e))
                      | Inr text \<Rightarrow>
                          (case write_fault env of
                             Some (e, k) \<Rightarrow>
                               (set_file html_file_path (take k text) w1,
                                Return False (write_error html_file_path e))
                           | None \<Rightarrow>
                               (set_file html_file_path text w1,
                                Return True
                                  (''Successfully added post '' @ [CHR 0x27] @ title @ [CHR 0x27]
                                   @ '' to '' @ basename html_file_path
                                   @ ''.\<newline>Backup saved as '' @ basename backup_path))))))"

text \<open>
  \<open>add_blog_post\<close>. The path exists when there is a file or a directory at it; reading a
  directory raises. Step 4 calls \<open>find_next_post_id\<close> outside every \<open>try\<close>, so an exception
  of it leaves the function uncaught, after the warning of step 3 was printed.
\<close>

definition add_blog_post ::
  "lib \<Rightarrow> io \<Rightarrow> world \<Rightarrow> string \<Rightarrow> string \<Rightarrow> string \<Rightarrow> string \<Rightarrow> string \<Rightarrow> string \<Rightarrow> string
     \<Rightarrow> world \<times> result" where
  "add_blog_post l env w html_file_path title tags_str description read_time date_str post_filename =
     (case (if html_file_path = [] then None else files w html_file_path) of
        None \<Rightarrow>
          (w, Return False
                (''Error: HTML file not found or path not specified: '' @ html_file_path))
      | Some Directory \<Rightarrow>
          (w, Return False
                (read_error html_file_path
                   (case read_fault env of Some e \<Rightarrow> e | None \<Rightarrow> dir_fault env)))
      | Some (File content) \<Rightarrow>
     (case read_fault env of
        Some e \<Rightarrow> (w, Return False (read_error html_file_path e))
      | None \<Rightarrow>
     (case html_parse l content of
        Inl e \<Rightarrow> (w, Return False (''Error parsing HTML: '' @ e))
      | Inr sp \<Rightarrow>
     (case find_insertion_point sp of
        None \<Rightarrow> (w, Return False no_container_error)
      | Some ((main_content, main_tag), fallback) \<Rightarrow>
     (let w1 = (if fallback then print fallback_warning w else w)
      in case find_next_post_id (int_max_str_digits l) sp of
           Inl e \<Rightarrow> (w1, Raise e)
         | Inr next_id \<Rightarrow>
     (let tags_list = tags_list_of tags_str
      in if tags_list = [] then (w1, Return False no_tag_error)
         else
     (let new_post_html_str =
            new_post_html_str_of next_id title tags_list description read_time date_str post_filename
      in case html_parse l new_post_html_str of
           Inl e \<Rightarrow> (w1, Return False (''Error inserting new post HTML: '' @ e))
         | Inr fragment \<Rightarrow>
     (case soup_find is_article fragment of
        None \<Rightarrow>
          (w1, Return False ''Error: Failed to create BeautifulSoup object for the new post.'')
      | Some (q, new_post_soup) \<Rightarrow>
     (let sp1 = update_at (insert0 new_post_soup) main_content sp;
          sp2 = update_at (insert0 (NavigableString ''\<newline>      '')) main_content sp1
      in write_back l env w1 html_file_path content title sp2)))))))))"

section \<open>The form of the blog tool\<close>






section \<open>The git worker\<close>

text \<open>
  \<open>subprocess.Popen(cmd, cwd=...)\<close> followed by \<open>communicate()\<close> either raises or yields the
  return code, the standard output and the standard error of the process.
\<close>

datatype proc =
    Raised exn
  | Exited int string string

text \<open>
  What the worker does, in order: the signals \<open>output\<close>, \<open>error\<close> and \<open>finished\<close> that it
  emits, and the processes that it starts in the repository.
\<close>

datatype event =
    Output string
  | Error string
  | Finished
  | Popen string "string list"

text \<open>\<open>str(i)\<close> of an integer, as the f-string renders the return code.\<close>

definition str_int :: "int \<Rightarrow> string" where
  "str_int i = (if i < 0 then ''-'' @ str_nat (nat (- i)) else str_nat (nat i))"

definition cmds_of :: "string \<Rightarrow> string list list" where
  "cmds_of commit_msg =
     [[''git'', ''add'', ''.''],
      [''git'', ''commit'', ''-m'', commit_msg],
      [''git'', ''push'', ''-u'', ''origin'', ''main'']]"

text \<open>The loop of \<open>GitWorker.run\<close> over the commands that are left.\<close>

fun run_loop :: "(string \<Rightarrow> string list \<Rightarrow> proc) \<Rightarrow> string \<Rightarrow> string list list \<Rightarrow> event list" where
  "run_loop popen repo_path [] = [Finished]"
| "run_loop popen repo_path (cmd # cmds) =
     Output (''Running: '' @ join '' '' cmd @ ''\<newline>'') # Popen repo_path cmd #
     (case popen repo_path cmd of
        Raised e \<Rightarrow> [Error e]
      | Exited returncode out err \<Rightarrow>
          (if out \<noteq> [] then [Output out] else []) @
          (if err \<noteq> [] then [Output err] else []) @
          (if returncode \<noteq> 0
           then [Error (''Command '' @ join '' '' cmd @ '' failed with exit code '' @ str_int returncode)]
           else run_loop popen repo_path cmds))"

definition run :: "(string \<Rightarrow> string list \<Rightarrow> proc) \<Rightarrow> string \<Rightarrow> string \<Rightarrow> event list" where
  "run popen repo_path commit_msg = run_loop popen repo_path (cmds_of commit_msg)"

section \<open>The allocator as the specification words it\<close>

text \<open>
  The specification describes the allocator over the entries whose identifier is exactly
  \<open>post\<close> followed by one or more digits. The definitions of this section follow those
  words, to be compared with \<^const>\<open>find_next_post_id\<close>.
\<close>

definition exact_post_id :: "string \<Rightarrow> bool" where
  "exact_post_id s = (take 4 s = ''post'' \<and> drop 4 s \<noteq> [] \<and> list_all is_digit (drop 4 s))"

fun is_entry :: "node \<Rightarrow> bool" where
  "is_entry (Tag nm ats cs) =
     (nm = ''article'' \<and> (case map_of ats ''id'' of Some v \<Rightarrow> exact_post_id v | None \<Rightarrow> False))"
| "is_entry (NavigableString s) = False"

definition entry_number :: "node \<Rightarrow> nat" where
  "entry_number e = py_int (drop 4 (get e ''id'' []))"

definition spec_next_post_id :: "soup \<Rightarrow> string" where
  "spec_next_post_id sp =
     ''post'' @ str_nat (Max (set (0 # map entry_number (filter is_entry (descendants sp)))) + 1)"

text \<open>The number that the loop of \<open>find_next_post_id\<close> reads from a post it was given.\<close>

definition matched_number :: "node \<Rightarrow> nat" where
  "matched_number post = py_int (takeWhile is_digit (drop 4 (get post ''id'' [])))"

section \<open>Stages and examples\<close>

text \<open>
  The first three steps of \<open>add_blog_post\<close> went through: the path is not empty, there is
  a regular file with the given content, it was read, the parser returned the tree \<open>sp\<close>, and the
  container \<open>c\<close> was found, by the fallback when \<open>fb\<close> holds.
\<close>

definition located ::
  "lib \<Rightarrow> io \<Rightarrow> world \<Rightarrow> string \<Rightarrow> string \<Rightarrow> soup \<Rightarrow> nat list \<times> node \<Rightarrow> bool \<Rightarrow> bool" where
  "located l env w html_file_path content sp c fb =
     (html_file_path \<noteq> [] \<and> files w html_file_path = Some (File content) \<and> read_fault env = None
      \<and> html_parse l content = Inr sp \<and> find_insertion_point sp = Some (c, fb))"

text \<open>
  A small world for concrete instances: a blog page with one post, a page whose \<open>main\<close>
  element has no \<open>id\<close>, and a page without a \<open>main\<close> element; a parser that knows these
  three pages and reads any other markup as one \<open>article\<close> element with that markup as
  its text; a serializer that writes a fixed text.
\<close>

definition example_content :: string where
  \<open>example_content =
     ''<html><body><main id="blogPosts"><article class="post-card" id="post1"></article></main></body></html>''\<close>

definition example_doc :: soup where
  "example_doc =
     [Tag ''html'' []
        [Tag ''body'' []
           [Tag ''main'' [(''id'', ''blogPosts'')]
              [Tag ''article'' [(''class'', ''post-card''), (''id'', ''post1'')] []]]]]"

definition plain_content :: string where
  "plain_content = ''<div></div><main><p>Hello</p></main>''"

definition plain_doc :: soup where
  "plain_doc = [Tag ''div'' [] [], Tag ''main'' [] [Tag ''p'' [] [NavigableString ''Hello'']]]"

definition bare_content :: string where
  "bare_content = ''<div>Hello</div>''"

definition bare_doc :: soup where
  "bare_doc = [Tag ''div'' [] [NavigableString ''Hello'']]"

definition example_lib :: lib where
  "example_lib =
     \<lparr>html_parse = (\<lambda>markup.
        if markup = example_content then Inr example_doc
        else if markup = plain_content then Inr plain_doc
        else if markup = bare_content then Inr bare_doc
        else Inr [Tag ''article'' [] [NavigableString markup]]),
      prettify = (\<lambda>sp. Inr ''<!-- the page with the new post -->''),
      int_max_str_digits = 4300\<rparr>"

definition no_faults :: io where
  "no_faults =
     \<lparr>dir_fault = ''[Errno 21] Is a directory'', read_fault = None, copy_fault = None,
      open_fault = None, write_fault = None\<rparr>"

definition example_world :: world where
  "example_world =
     \<lparr>files = [''blog.html'' \<mapsto> File example_content,
               ''blog.html.bak'' \<mapsto> File ''an older backup'',
               ''plain.html'' \<mapsto> File plain_content, ''bare.html'' \<mapsto> File bare_content],
      stdout = []\<rparr>"

text \<open>The same world with a directory where the backup of the blog page is to go.\<close>

definition directory_world :: world where
  "directory_world = example_world\<lparr>files := (files example_world)(''blog.html.bak'' \<mapsto> Directory)\<rparr>"

section \<open>Traces of the git worker\<close>

text \<open>
  Readings of a trace of the worker: the commands it started, in order, and the errors it
  emitted; and of the result of one process: whether it exited with status zero, the
  message of its failure, and the reports of its output, standard output first.
\<close>

fun started :: "event list \<Rightarrow> string list list" where
  "started [] = []"
| "started (Popen repo_path cmd # tr) = cmd # started tr"
| "started (ev # tr) = started tr"

fun errors :: "event list \<Rightarrow> string list" where
  "errors [] = []"
| "errors (Error e # tr) = e # errors tr"
| "errors (ev # tr) = errors tr"

definition exited_zero :: "proc \<Rightarrow> bool" where
  "exited_zero r = (case r of Exited returncode out err \<Rightarrow> returncode = 0 | Raised e \<Rightarrow> False)"

definition failure_of :: "string list \<Rightarrow> proc \<Rightarrow> string" where
  "failure_of cmd r =
     (case r of
        Raised e \<Rightarrow> e
      | Exited returncode out err \<Rightarrow>
          ''Command '' @ join '' '' cmd @ '' failed with exit code '' @ str_int returncode)"

definition reports_of :: "proc \<Rightarrow> event list" where
  "reports_of r =
     (case r of
        Raised e \<Rightarrow> []
      | Exited returncode out err \<Rightarrow>
          (if out \<noteq> [] then [Output out] else []) @ (if err \<noteq> [] then [Output err] else []))"

text \<open>A repository in which there is nothing to commit.\<close>

definition example_popen :: "string \<Rightarrow> string list \<Rightarrow> proc" where
  "example_popen repo_path cmd =
     (if cmd ! 1 = ''add'' then Exited 0 [] []
      else if cmd ! 1 = ''commit'' then Exited 1 ''nothing to commit, working tree clean'' []
      else Exited 0 [] ''Everything up-to-date'')"

section \<open>Readings of the tree\<close>

text \<open>
  The label of a node is the node without what is below it: the name and the attributes
  of a tag, the text of a string. \<open>labels\<close> reads a tree in document order.
\<close>

fun label :: "node \<Rightarrow> node" where
  "label (Tag nm ats cs) = Tag nm ats []"
| "label (NavigableString s) = NavigableString s"

definition labels :: "soup \<Rightarrow> node list" where
  "labels sp = map label (descendants sp)"

text \<open>Several new children at the front of the \<open>contents\<close>, as repeated \<open>insert(0, ...)\<close> leaves them.\<close>

fun prepend :: "node list \<Rightarrow> node \<Rightarrow> node" where
  "prepend new (Tag nm ats cs) = Tag nm ats (new @ cs)"
| "prepend new (NavigableString s) = NavigableString s"

text \<open>The identifiers of the entries of a document, in document order.\<close>

definition entry_ids :: "soup \<Rightarrow> string list" where
  "entry_ids sp = map (\<lambda>e. get e ''id'' []) (find_all is_entry sp)"

section \<open>Numbers and patterns\<close>

lemma digit_val_digit_char: "d < 10 \<Longrightarrow> digit_val (digit_char d) = d"
proof -
  assume "d < 10"
  then have "d = 0 \<or> d = 1 \<or> d = 2 \<or> d = 3 \<or> d = 4 \<or> d = 5 \<or> d = 6 \<or> d = 7 \<or> d = 8 \<or> d = 9"
    by arith
  then show ?thesis by (elim disjE) (simp_all add: digit_val_def digit_char_def)
qed

lemma py_int_snoc: "py_int (ds @ [c]) = 10 * py_int ds + digit_val c"
  by (simp add: py_int_def)

text \<open>Reading back what \<open>str\<close> printed gives the number: the two conversions agree.\<close>

lemma py_int_str_nat: "py_int (str_nat n) = n"
proof (induction n rule: str_nat.induct)
  case (1 n)
  show ?case
  proof (cases "n < 10")
    case True
    then show ?thesis by (simp add: str_nat.simps [of n] py_int_def digit_val_digit_char)
  next
    case False
    then have "py_int (str_nat n) = 10 * py_int (str_nat (n div 10)) + n mod 10"
      by (simp add: str_nat.simps [of n] py_int_snoc digit_val_digit_char)
    with False 1 show ?thesis by simp
  qed
qed

lemma exact_post_id_last: "exact_post_id s \<Longrightarrow> s \<noteq> [] \<and> is_digit (last s)"
proof -
  assume a: "exact_post_id s"
  then have d: "drop 4 s \<noteq> []" and l: "list_all is_digit (drop 4 s)"
    by (simp_all add: exact_post_id_def)
  from d have "s \<noteq> []" by auto
  moreover from d have "last s = last (drop 4 s)" by simp
  moreover from d l have "is_digit (last (drop 4 s))"
    by (metis last_in_set list_all_iff)
  ultimately show ?thesis by simp
qed

lemma not_digit_newline: "\<not> is_digit CHR ''\<newline>''"
  by (simp add: is_digit_def)

lemma re_search_post_id_iff:
  "re_search_post_id s \<longleftrightarrow> exact_post_id s \<or> (\<exists>b. s = b @ [CHR ''\<newline>''] \<and> exact_post_id b)"
proof (cases "s \<noteq> [] \<and> last s = CHR ''\<newline>''")
  case True
  then have s: "s = butlast s @ [CHR ''\<newline>'']" by (metis append_butlast_last_id)
  from True have "\<not> exact_post_id s" using exact_post_id_last not_digit_newline by metis
  moreover have "re_search_post_id s = exact_post_id (butlast s)"
    using True by (simp add: re_search_post_id_def exact_post_id_def Let_def)
  moreover have "(\<exists>b. s = b @ [CHR ''\<newline>''] \<and> exact_post_id b) = exact_post_id (butlast s)"
    using s by (metis butlast_snoc)
  ultimately show ?thesis by simp
next
  case False
  then have "re_search_post_id s = exact_post_id s"
    by (auto simp add: re_search_post_id_def exact_post_id_def)
  moreover from False have "\<not> (\<exists>b. s = b @ [CHR ''\<newline>''] \<and> exact_post_id b)" by auto
  ultimately show ?thesis by blast
qed

lemma exact_post_id_digits: "exact_post_id s \<Longrightarrow> takeWhile is_digit (drop 4 s) = drop 4 s"
  by (simp add: exact_post_id_def list_all_iff)

lemma re_match_post_exact: "exact_post_id s \<Longrightarrow> re_match_post s = Some (drop 4 s)"
proof -
  assume a: "exact_post_id s"
  then have tw: "takeWhile is_digit (drop 4 s) = drop 4 s"
    by (rule exact_post_id_digits)
  from a have "take 4 s = ''post''" and "drop 4 s \<noteq> []"
    by (simp_all add: exact_post_id_def)
  then show ?thesis unfolding re_match_post_def tw by simp
qed

lemma re_match_post_newline:
  "exact_post_id b \<Longrightarrow> re_match_post (b @ [CHR ''\<newline>'']) = Some (drop 4 b)"
proof -
  assume a: "exact_post_id b"
  then have len: "4 < length b" by (auto simp: exact_post_id_def)
  from a have "takeWhile is_digit (drop 4 b @ [CHR ''\<newline>'']) = drop 4 b"
    by (simp add: exact_post_id_def list_all_iff takeWhile_append2 not_digit_newline)
  with a len show ?thesis by (simp add: re_match_post_def exact_post_id_def)
qed

lemma re_search_imp_match:
  assumes "re_search_post_id s"
  shows "re_match_post s = Some (takeWhile is_digit (drop 4 s))"
proof -
  have "\<exists>ds. re_match_post s = Some ds"
    using assms re_match_post_exact re_match_post_newline unfolding re_search_post_id_iff by blast
  then show ?thesis by (auto simp: re_match_post_def split: if_splits)
qed

lemma running_max:
  "(if py_int (takeWhile is_digit (drop 4 (get post ''id'' []))) > m
    then py_int (takeWhile is_digit (drop 4 (get post ''id'' []))) else m)
   = max m (matched_number post)"
  by (auto simp: matched_number_def max_def)

lemma max_id_loop_value:
  "list_all is_post_article posts \<Longrightarrow> max_id_loop lim m posts = Inr r
   \<Longrightarrow> r = fold max (map matched_number posts) m"
proof (induction posts arbitrary: m)
  case Nil
  then show ?case by simp
next
  case (Cons post posts)
  from Cons.prems(1) have p: "is_post_article post" and ps: "list_all is_post_article posts"
    by simp_all
  from p have "re_search_post_id (get post ''id'' [])"
    by (cases post) (auto split: option.splits)
  then have m: "re_match_post (get post ''id'' [])
      = Some (takeWhile is_digit (drop 4 (get post ''id'' [])))"
    by (rule re_search_imp_match)
  let ?ds = "takeWhile is_digit (drop 4 (get post ''id'' []))"
  from Cons.prems(2) m have i: "int_of_str lim ?ds = Inr (py_int ?ds)"
    by (auto simp: int_of_str_def split: if_splits)
  with Cons.prems(2) m have "max_id_loop lim (max m (matched_number post)) posts = Inr r"
    by (simp add: running_max)
  from Cons.IH [OF ps this] show ?case by (simp add: max.commute)
qed

lemma max_id_loop_unlimited:
  "list_all is_post_article posts
   \<Longrightarrow> max_id_loop 0 m posts = Inr (fold max (map matched_number posts) m)"
proof (induction posts arbitrary: m)
  case Nil
  then show ?case by simp
next
  case (Cons post posts)
  from Cons.prems have p: "is_post_article post" and ps: "list_all is_post_article posts"
    by simp_all
  from p have "re_search_post_id (get post ''id'' [])"
    by (cases post) (auto split: option.splits)
  then have m: "re_match_post (get post ''id'' [])
      = Some (takeWhile is_digit (drop 4 (get post ''id'' [])))"
    by (rule re_search_imp_match)
  from Cons.IH [OF ps, of "max m (matched_number post)"] m show ?case
    by (simp add: int_of_str_def running_max max.commute)
qed

text \<open>
  What the program computes on every document on which it returns: the maximum is taken
  over the posts that the compiled pattern accepts. Without a digit limit it returns on
  every document.
\<close>

lemma find_next_post_id_max:
  assumes "find_next_post_id lim sp = Inr next_id"
  shows "next_id =
     ''post'' @ str_nat (Max (set (0 # map matched_number (find_all is_post_article sp))) + 1)"
proof -
  let ?posts = "find_all is_post_article sp"
  have a: "list_all is_post_article ?posts" by (simp add: find_all_def list_all_iff)
  from assms obtain max_id where l: "max_id_loop lim 0 ?posts = Inr max_id"
    and n: "next_id = ''post'' @ str_nat (max_id + 1)"
    by (auto simp: find_next_post_id_def str_of_nat_def split: sum.splits if_splits)
  from max_id_loop_value [OF a l] have "max_id = Max (set (0 # map matched_number ?posts))"
    by (simp only: Max.set_eq_fold)
  with n show ?thesis by simp
qed

lemma find_next_post_id_unlimited:
  "find_next_post_id 0 sp =
     Inr (''post'' @ str_nat (Max (set (0 # map matched_number (find_all is_post_article sp))) + 1))"
proof -
  let ?posts = "find_all is_post_article sp"
  have a: "list_all is_post_article ?posts" by (simp add: find_all_def list_all_iff)
  have "fold max (map matched_number ?posts) 0 = Max (set (0 # map matched_number ?posts))"
    by (simp only: Max.set_eq_fold)
  with max_id_loop_unlimited [OF a, of 0] show ?thesis
    by (simp add: find_next_post_id_def str_of_nat_def del: set_simps list.map)
qed

text \<open>
  With the limit of 4300 digits, an \<open>article\<close> whose identifier is \<open>post\<close> followed by 4301
  digits makes \<open>find_next_post_id\<close> raise.
\<close>

lemma find_next_post_id_raises:
  "find_next_post_id 4300
     [Tag ''main'' [(''id'', ''blogPosts'')]
        [Tag ''article'' [(''id'', ''post'' @ replicate 4301 CHR ''1'')] []]]
   = Inl (int_limit_error 4300 4301)"
proof -
  have d: "is_digit CHR ''1''" by (simp add: is_digit_def)
  have "re_search_post_id (''post'' @ replicate 4301 CHR ''1'')"
    by (simp add: re_search_post_id_def list_all_iff d)
  moreover have "re_match_post (''post'' @ replicate 4301 CHR ''1'') = Some (replicate 4301 CHR ''1'')"
    by (simp add: re_match_post_def takeWhile_replicate d)
  ultimately show ?thesis
    by (simp add: find_next_post_id_def find_all_def int_of_str_def)
qed

lemma post_article_entry:
  "\<not> endswith (get n ''id'' []) ''\<newline>'' \<Longrightarrow> is_post_article n = is_entry n"
  by (cases n) (auto simp: re_search_post_id_iff endswith_def split: option.splits)

lemma entry_matched_number: "is_entry n \<Longrightarrow> matched_number n = entry_number n"
  by (cases n) (auto simp: matched_number_def entry_number_def exact_post_id_digits split: option.splits)

text \<open>
  On a document in which no identifier ends with a newline the program, when it returns,
  agrees with the specification's wording.
\<close>

lemma find_next_post_id_spec:
  assumes "list_all (\<lambda>n. \<not> endswith (get n ''id'' []) ''\<newline>'') (descendants sp)"
    and "find_next_post_id lim sp = Inr next_id"
  shows "next_id = spec_next_post_id sp"
proof -
  have f: "filter is_post_article (descendants sp) = filter is_entry (descendants sp)"
    using assms(1) by (intro filter_cong) (auto simp: list_all_iff post_article_entry)
  have m: "map matched_number (filter is_entry (descendants sp))
      = map entry_number (filter is_entry (descendants sp))"
    by (simp add: entry_matched_number)
  from find_next_post_id_max [OF assms(2)] show ?thesis
    by (simp only: spec_next_post_id_def find_all_def f m)
qed

text \<open>
  Claim C1. The allocator is to return \<open>post\<close> followed by \<open>M + 1\<close>, where \<open>M\<close> is the largest
  number among the \<open>article\<close> elements whose identifier is exactly \<open>post\<close> followed by one or
  more digits, and every other identifier is to be ignored. The pattern \<open>^post\d+$\<close> also
  finds a match in an identifier that ends with a newline after the digits, because \<open>$\<close>
  matches before a final newline: on the document below, whose only \<open>article\<close> has the
  identifier \<open>post5\<close> followed by a newline, the program returns \<open>post6\<close>, whatever the
  digit limit, where the claim gives \<open>post1\<close>.
\<close>

theorem find_next_post_id_trailing_newline:
  "find_next_post_id lim
     [Tag ''main'' [(''id'', ''blogPosts'')] [Tag ''article'' [(''id'', ''post5\<newline>'')] []]]
     = Inr ''post6''
   \<and> spec_next_post_id
     [Tag ''main'' [(''id'', ''blogPosts'')] [Tag ''article'' [(''id'', ''post5\<newline>'')] []]] = ''post1''"
  by (auto simp: find_next_post_id_def find_all_def re_match_post_def int_of_str_def str_of_nat_def
      re_search_post_id_def py_int_def is_digit_def digit_val_def digit_char_def str_nat.simps
      spec_next_post_id_def exact_post_id_def)

section \<open>The synthesized fragment\<close>












lemma sublist_skip: "sublist xs ys \<Longrightarrow> sublist xs (zs @ ys)"
  by (metis append.assoc sublist_def)






section \<open>The outcomes of the insertion operation\<close>

text \<open>
  Step 7 ends in one of seven ways: the target of the copy is a directory, so the copy
  raises; the copy raises for another reason (with its target untouched or holding a part
  of the document); the opening for writing raises; the serializer raises; the writing
  raises; or all of it goes through. It always returns.
\<close>

lemma write_back_outcome:
  assumes "write_back l env w path content title sp = (w', r)"
  obtains
    (target_directory) e where
      "files w (copy_target w path (path @ ''.bak'')) = Some Directory" "w' = w"
      "r = Return False (write_error path e)"
  | (copy_untouched) e where
      "files w (copy_target w path (path @ ''.bak'')) \<noteq> Some Directory"
      "copy_fault env = Some (e, None)" "w' = w" "r = Return False (write_error path e)"
  | (copy_partial) e k where
      "files w (copy_target w path (path @ ''.bak'')) \<noteq> Some Directory"
      "copy_fault env = Some (e, Some k)"
      "w' = set_file (copy_target w path (path @ ''.bak'')) (take k content) w"
      "r = Return False (write_error path e)"
  | (open_fault) e where
      "files w (copy_target w path (path @ ''.bak'')) \<noteq> Some Directory"
      "copy_fault env = None" "open_fault env = Some e"
      "w' = set_file (copy_target w path (path @ ''.bak'')) content w"
      "r = Return False (write_error path e)"
  | (prettify_fault) e where
      "files w (copy_target w path (path @ ''.bak'')) \<noteq> Some Directory"
      "copy_fault env = None" "open_fault env = None" "prettify l sp = Inl e"
      "w' = set_file path [] (set_file (copy_target w path (path @ ''.bak'')) content w)"
      "r = Return False (write_error path e)"
  | (write_fault) e k out where
      "files w (copy_target w path (path @ ''.bak'')) \<noteq> Some Directory"
      "copy_fault env = None" "open_fault env = None"
      "prettify l sp = Inr out" "write_fault env = Some (e, k)"
      "w' = set_file path (take k out) (set_file (copy_target w path (path @ ''.bak'')) content w)"
      "r = Return False (write_error path e)"
  | (success) out msg where
      "files w (copy_target w path (path @ ''.bak'')) \<noteq> Some Directory"
      "copy_fault env = None" "open_fault env = None"
      "prettify l sp = Inr out" "write_fault env = None"
      "w' = set_file path out (set_file (copy_target w path (path @ ''.bak'')) content w)"
      "r = Return True msg" "take 12 msg = ''Successfully''"
proof (cases "files w (copy_target w path (path @ ''.bak'')) = Some Directory")
  case True
  with assms have "w' = w"
    and "r = Return False (write_error path
      (case copy_fault env of Some (e, left) \<Rightarrow> e | None \<Rightarrow> dir_fault env))"
    by (simp_all add: write_back_def Let_def)
  with True show thesis using target_directory by blast
next
  case False
  note d = this assms
  show thesis
  proof (cases "copy_fault env")
    case (Some a)
    obtain e left where p: "a = (e, left)" by (cases a)
    show thesis
    proof (cases left)
      case None
      with d Some p have "w' = w" "r = Return False (write_error path e)" by (simp_all add: write_back_def Let_def)
      with False Some p None show thesis using copy_untouched by simp
    next
      case left: (Some k)
      with d Some p have "w' = set_file (copy_target w path (path @ ''.bak'')) (take k content) w"
        "r = Return False (write_error path e)"
        by (simp_all add: write_back_def Let_def)
      with False Some p left show thesis using copy_partial by simp
    qed
  next
    case None
    note c = this
    show thesis
    proof (cases "open_fault env")
      case (Some e)
      with d c have "w' = set_file (copy_target w path (path @ ''.bak'')) content w"
        "r = Return False (write_error path e)"
        by (simp_all add: write_back_def Let_def)
      with False c Some show thesis using open_fault by simp
    next
      case None
      note opn = this
      show thesis
      proof (cases "prettify l sp")
        case (Inl e)
        with d c opn have
          "w' = set_file path [] (set_file (copy_target w path (path @ ''.bak'')) content w)"
          "r = Return False (write_error path e)"
          by (simp_all add: write_back_def Let_def)
        with False c opn Inl show thesis using prettify_fault by simp
      next
        case (Inr out)
        show thesis
        proof (cases "write_fault env")
          case (Some b)
          obtain e k where b: "b = (e, k)" by (cases b)
          with d c opn Inr Some have
            "w' = set_file path (take k out)
              (set_file (copy_target w path (path @ ''.bak'')) content w)"
            "r = Return False (write_error path e)"
            by (simp_all add: write_back_def Let_def)
          with False c opn Inr Some b show thesis using write_fault by simp
        next
          case None
          with d c opn Inr have
            "w' = set_file path out (set_file (copy_target w path (path @ ''.bak'')) content w)"
            "\<exists>msg. r = Return True msg \<and> take 12 msg = ''Successfully''"
            by (auto simp: write_back_def Let_def)
          with False c opn Inr None show thesis using success by blast
        qed
      qed
    qed
  qed
qed

text \<open>
  \<open>add_blog_post\<close> ends in one of ten ways: one for each \<open>return\<close> before step 7 (the read
  of a directory returns as a read fault does), one for an exception of
  \<open>find_next_post_id\<close>, which nothing catches, and one for step 7.
\<close>

lemma add_blog_post_outcome:
  assumes "add_blog_post l env w path title tags_str description read_time date_str post_filename
    = (w', r)"
  obtains
    (not_found) "path = [] \<or> files w path = None" "w' = w"
      "r = Return False (''Error: HTML file not found or path not specified: '' @ path)"
  | (is_directory) e where "path \<noteq> []" "files w path = Some Directory" "w' = w"
      "r = Return False (read_error path e)"
  | (read_fault) content e where "path \<noteq> []" "files w path = Some (File content)"
      "read_fault env = Some e" "w' = w" "r = Return False (read_error path e)"
  | (parse_fault) content e where "path \<noteq> []" "files w path = Some (File content)"
      "read_fault env = None" "html_parse l content = Inl e" "w' = w"
      "r = Return False (''Error parsing HTML: '' @ e)"
  | (no_container) content sp where "path \<noteq> []" "files w path = Some (File content)"
      "read_fault env = None" "html_parse l content = Inr sp" "find_insertion_point sp = None"
      "w' = w" "r = Return False no_container_error"
  | (allocation_raises) content sp c fb e where "located l env w path content sp c fb"
      "find_next_post_id (int_max_str_digits l) sp = Inl e"
      "w' = (if fb then print fallback_warning w else w)" "r = Raise e"
  | (no_tag) content sp c fb next_id where "located l env w path content sp c fb"
      "find_next_post_id (int_max_str_digits l) sp = Inr next_id"
      "tags_list_of tags_str = []"
      "w' = (if fb then print fallback_warning w else w)" "r = Return False no_tag_error"
  | (fragment_fault) content sp c fb next_id e where "located l env w path content sp c fb"
      "find_next_post_id (int_max_str_digits l) sp = Inr next_id"
      "tags_list_of tags_str \<noteq> []"
      "html_parse l (new_post_html_str_of next_id title (tags_list_of tags_str)
         description read_time date_str post_filename) = Inl e"
      "w' = (if fb then print fallback_warning w else w)"
      "r = Return False (''Error inserting new post HTML: '' @ e)"
  | (no_article) content sp c fb next_id fragment where "located l env w path content sp c fb"
      "find_next_post_id (int_max_str_digits l) sp = Inr next_id"
      "tags_list_of tags_str \<noteq> []"
      "html_parse l (new_post_html_str_of next_id title (tags_list_of tags_str)
         description read_time date_str post_filename) = Inr fragment"
      "soup_find is_article fragment = None"
      "w' = (if fb then print fallback_warning w else w)"
      "r = Return False ''Error: Failed to create BeautifulSoup object for the new post.''"
  | (write_back) content sp p c fb next_id fragment q new_post_soup where
      "located l env w path content sp (p, c) fb"
      "find_next_post_id (int_max_str_digits l) sp = Inr next_id"
      "tags_list_of tags_str \<noteq> []"
      "html_parse l (new_post_html_str_of next_id title (tags_list_of tags_str)
         description read_time date_str post_filename) = Inr fragment"
      "soup_find is_article fragment = Some (q, new_post_soup)"
      "write_back l env (if fb then print fallback_warning w else w) path content title
         (update_at (insert0 (NavigableString ''\<newline>      '')) p
            (update_at (insert0 new_post_soup) p sp)) = (w', r)"
proof (cases "path = [] \<or> files w path = None")
  case True
  then have "(if path = [] then None else files w path) = None" by auto
  with assms have "w' = w"
    "r = Return False (''Error: HTML file not found or path not specified: '' @ path)"
    by (simp_all add: add_blog_post_def)
  with True show thesis using not_found by blast
next
  case False
  then obtain x where c0: "path \<noteq> []" "files w path = Some x" by auto
  show thesis
  proof (cases x)
    case Directory
    with c0 have "(if path = [] then None else files w path) = Some Directory" by simp
    with assms have "w' = w"
      "r = Return False (read_error path
        (case read_fault env of Some e \<Rightarrow> e | None \<Rightarrow> dir_fault env))"
      by (simp_all add: add_blog_post_def)
    with c0 Directory show thesis using is_directory by blast
  next
    case (File content)
    with c0 have c: "path \<noteq> []" "files w path = Some (File content)" by simp_all
    then have g: "(if path = [] then None else files w path) = Some (File content)" by simp
    show thesis
    proof (cases "read_fault env")
      case (Some e)
      with assms g have "w' = w" "r = Return False (read_error path e)"
        by (simp_all add: add_blog_post_def)
      with c Some show thesis using read_fault by blast
    next
      case None
      note rd = this
      show thesis
      proof (cases "html_parse l content")
        case (Inl e)
        with assms g rd have "w' = w" "r = Return False (''Error parsing HTML: '' @ e)"
          by (simp_all add: add_blog_post_def)
        with c rd Inl show thesis using parse_fault by blast
      next
        case (Inr sp)
        note sp = this
        show thesis
        proof (cases "find_insertion_point sp")
          case None
          with assms g rd sp have "w' = w" "r = Return False no_container_error"
            by (simp_all add: add_blog_post_def)
          with c rd sp None show thesis using no_container by blast
        next
          case (Some a)
          then obtain p n fb where f: "find_insertion_point sp = Some ((p, n), fb)"
            by (cases a) auto
          with c rd sp have loc: "located l env w path content sp (p, n) fb"
            by (simp add: located_def)
          let ?w1 = "if fb then print fallback_warning w else w"
          show thesis
          proof (cases "find_next_post_id (int_max_str_digits l) sp")
            case (Inl e)
            with assms g rd sp f have "w' = ?w1" "r = Raise e"
              by (simp_all add: add_blog_post_def Let_def)
            with loc Inl show thesis using allocation_raises by blast
          next
            case (Inr next_id)
            note al = this
            let ?markup = "new_post_html_str_of next_id title (tags_list_of tags_str)
              description read_time date_str post_filename"
            show thesis
            proof (cases "tags_list_of tags_str = []")
              case True
              with assms g rd sp f al have "w' = ?w1" "r = Return False no_tag_error"
                by (simp_all add: add_blog_post_def Let_def)
              with loc al True show thesis using no_tag by blast
            next
              case False
              note t = this
              show thesis
              proof (cases "html_parse l ?markup")
                case (Inl e)
                with assms g rd sp f al t have "w' = ?w1"
                  "r = Return False (''Error inserting new post HTML: '' @ e)"
                  by (simp_all add: add_blog_post_def Let_def)
                with loc al t Inl show thesis using fragment_fault by blast
              next
                case (Inr fragment)
                note fr = this
                show thesis
                proof (cases "soup_find is_article fragment")
                  case None
                  with assms g rd sp f al t fr have "w' = ?w1"
                    "r = Return False
                      ''Error: Failed to create BeautifulSoup object for the new post.''"
                    by (simp_all add: add_blog_post_def Let_def)
                  with loc al t fr None show thesis using no_article by blast
                next
                  case (Some b)
                  then obtain q new_post_soup where
                    a: "soup_find is_article fragment = Some (q, new_post_soup)"
                    by (cases b) auto
                  with assms g rd sp f al t fr have
                    "write_back l env ?w1 path content title
                       (update_at (insert0 (NavigableString ''\<newline>      '')) p
                          (update_at (insert0 new_post_soup) p sp)) = (w', r)"
                    by (simp add: add_blog_post_def Let_def)
                  with loc al t fr a show thesis using write_back by blast
                qed
              qed
            qed
          qed
        qed
      qed
    qed
  qed
qed

lemma files_print [simp]: "files (print line w) = files w"
  by (simp add: print_def)

lemma stdout_print [simp]: "stdout (print line w) = stdout w @ [line]"
  by (simp add: print_def)

lemma files_set_file [simp]:
  "files (set_file path content w) = (files w)(path \<mapsto> File content)"
  by (simp add: set_file_def)

lemma stdout_set_file [simp]: "stdout (set_file path content w) = stdout w"
  by (simp add: set_file_def)

lemma files_warned [simp]: "files (if fb then print line w else w) = files w"
  by simp

text \<open>When there is no directory at the backup path, the copy goes to the backup path.\<close>

lemma copy_target_file [simp]:
  "files w dst \<noteq> Some Directory \<Longrightarrow> copy_target w src dst = dst"
  by (simp add: copy_target_def)

lemma copy_target_warned [simp]:
  "copy_target (if fb then print line w else w) src dst = copy_target w src dst"
  by (simp add: copy_target_def)

lemma copy_target_differs [simp]:
  "copy_target w path (path @ ''.bak'') \<noteq> path" "path \<noteq> copy_target w path (path @ ''.bak'')"
  by (simp_all add: copy_target_def)

text \<open>The runs of the example that the concrete instances below use.\<close>

lemmas example_defs =
  example_lib_def example_world_def example_doc_def example_content_def no_faults_def
  plain_content_def plain_doc_def bare_content_def bare_doc_def directory_world_def
  add_blog_post_def write_back_def copy_target_def find_insertion_point_def set_file_def print_def
  new_post_html_str_of_def article_open_def Let_def

lemma example_next_id: "find_next_post_id 4300 example_doc = Inr ''post2''"
  by (simp add: example_doc_def find_next_post_id_def find_all_def re_match_post_def
      int_of_str_def str_of_nat_def re_search_post_id_def py_int_def is_digit_def digit_val_def
      digit_char_def str_nat.simps)

lemma plain_next_id: "find_next_post_id 4300 plain_doc = Inr ''post1''"
  by (simp add: plain_doc_def find_next_post_id_def find_all_def str_of_nat_def
      digit_char_def str_nat.simps)

lemma example_run:
  "add_blog_post example_lib no_faults example_world ''blog.html'' ''Hello'' ''A, b'' ''World''
     ''2 min read'' ''Jan 01, 2025'' ''hello''
   = (set_file ''blog.html'' ''<!-- the page with the new post -->''
        (set_file ''blog.html.bak'' example_content example_world),
      Return True
        ''Successfully added post 'Hello' to blog.html.\<newline>Backup saved as blog.html.bak'')"
  using example_next_id
  by (simp add: example_defs tags_list_of_def strip_def py_isspace_def basename_def)

lemma plain_run:
  "add_blog_post example_lib no_faults example_world ''plain.html'' ''Hello'' ''A, b'' ''World''
     ''2 min read'' ''Jan 01, 2025'' ''hello''
   = (set_file ''plain.html'' ''<!-- the page with the new post -->''
        (set_file ''plain.html.bak'' plain_content (print fallback_warning example_world)),
      Return True
        ''Successfully added post 'Hello' to plain.html.\<newline>Backup saved as plain.html.bak'')"
  using plain_next_id
  by (simp add: example_defs tags_list_of_def strip_def py_isspace_def basename_def)

text \<open>
  When there is no directory at \<open><original>.bak\<close>: on every successful insertion the file at
  \<open><original>.bak\<close> holds the content that the document file had before the call, whatever
  was at that path before; in every outcome in which the document file has changed, the
  backup holds the original content; if the copy fails, the operation does not return a
  success and the document file is as it was.
\<close>

lemma backup_at_backup_path:
  assumes "add_blog_post l env w path title tags_str description read_time date_str post_filename
    = (w', r)"
    and "files w (path @ ''.bak'') \<noteq> Some Directory"
  shows "(\<forall>msg. r = Return True msg
        \<longrightarrow> files w path \<noteq> None \<and> files w' (path @ ''.bak'') = files w path)
    \<and> (files w' path \<noteq> files w path \<longrightarrow> files w' (path @ ''.bak'') = files w path)
    \<and> (copy_fault env \<noteq> None
        \<longrightarrow> (\<forall>msg. r \<noteq> Return True msg) \<and> files w' path = files w path)"
  using assms(1)
proof (cases rule: add_blog_post_outcome)
  case (write_back content sp p c fb next_id fragment q new_post_soup)
  from write_back(1) have f: "files w path = Some (File content)" by (simp add: located_def)
  from assms(2) have t: "copy_target w path (path @ ''.bak'') = path @ ''.bak''"
    by simp
  from write_back(6) show ?thesis
    by (cases rule: write_back_outcome) (simp_all add: f t)
qed simp_all

text \<open>
  Claim C3. On every successful insertion a copy of the document as it was before the
  write is to be at \<open><original>.bak\<close>. \<open>shutil.copy2\<close> copies into its destination when the
  destination is a directory: with a directory at \<open>blog.html.bak\<close>, the program puts the
  copy at \<open>blog.html.bak/blog.html\<close>, overwrites the document and returns the success
  message that names \<open>blog.html.bak\<close> as the backup, while at \<open>blog.html.bak\<close> there is the
  directory and no copy of the document.
\<close>

theorem backup_into_directory:
  "add_blog_post example_lib no_faults directory_world ''blog.html'' ''Hello'' ''A, b'' ''World''
     ''2 min read'' ''Jan 01, 2025'' ''hello''
   = (set_file ''blog.html'' ''<!-- the page with the new post -->''
        (set_file ''blog.html.bak/blog.html'' example_content directory_world),
      Return True
        ''Successfully added post 'Hello' to blog.html.\<newline>Backup saved as blog.html.bak'')
   \<and> files directory_world ''blog.html'' = Some (File example_content)
   \<and> files (set_file ''blog.html'' ''<!-- the page with the new post -->''
        (set_file ''blog.html.bak/blog.html'' example_content directory_world)) ''blog.html.bak''
     = Some Directory"
  using example_next_id
  by (simp add: example_defs tags_list_of_def strip_def py_isspace_def basename_def)




text \<open>\<open>soup.find\<close> returns the first match in document order.\<close>

lemma find_append:
  "List.find P (xs @ ys) = (case List.find P xs of Some x \<Rightarrow> Some x | None \<Rightarrow> List.find P ys)"
  by (induction xs) simp_all

lemma snd_sibling [simp]: "snd (sibling r) = snd r"
  by (cases r rule: sibling.cases) simp_all

lemma soup_find_first: "map_option snd (soup_find P ns) = List.find P (descendants ns)"
proof (induction P ns rule: soup_find.induct)
  case (1 P)
  then show ?case by simp
next
  case (2 P nm ats cs ns)
  then show ?case
    by (cases "soup_find P cs"; cases "soup_find P ns")
       (auto simp: find_append split: option.splits)
next
  case (3 P s ns)
  then show ?case
    by (cases "soup_find P ns") auto
qed

lemma write_back_not_container_error:
  assumes "write_back l env w path content title sp = (w', r)"
  shows "r \<noteq> Return ok no_container_error"
  using assms
proof (cases rule: write_back_outcome)
  case (success out msg)
  then have "take 12 msg \<noteq> take 12 no_container_error"
    by (simp add: no_container_error_def)
  with success show ?thesis by auto
qed (simp_all add: write_error_def no_container_error_def)

text \<open>
  Claim C5. When the document was read and parsed: the container is the first \<open>main\<close>
  element whose \<open>id\<close> is \<open>blogPosts\<close>, and nothing is printed; if there is none, it is the
  first \<open>main\<close> element, the warning is printed and the operation goes on (the structural
  error is not returned); if there is no \<open>main\<close> element, the operation returns the
  structural error and the world is unchanged: no backup, the document file untouched.
\<close>

theorem container_lookup:
  assumes "path \<noteq> []" "files w path = Some (File content)" "read_fault env = None"
    and "html_parse l content = Inr sp"
    and "add_blog_post l env w path title tags_str description read_time date_str post_filename
      = (w', r)"
  shows "(case soup_find is_main_blogPosts sp of
            Some c \<Rightarrow>
              find_insertion_point sp = Some (c, False) \<and> stdout w' = stdout w
              \<and> (\<forall>ok. r \<noteq> Return ok no_container_error)
          | None \<Rightarrow>
              (case soup_find is_main sp of
                 Some c \<Rightarrow>
                   find_insertion_point sp = Some (c, True)
                   \<and> stdout w' = stdout w @ [fallback_warning]
                   \<and> (\<forall>ok. r \<noteq> Return ok no_container_error)
               | None \<Rightarrow>
                   find_insertion_point sp = None \<and> r = Return False no_container_error \<and> w' = w))
    \<and> map_option snd (soup_find is_main_blogPosts sp) = List.find is_main_blogPosts (descendants sp)
    \<and> map_option snd (soup_find is_main sp) = List.find is_main (descendants sp)"
proof -
  have fip: "find_insertion_point sp =
      (case soup_find is_main_blogPosts sp of
         Some c \<Rightarrow> Some (c, False)
       | None \<Rightarrow> (case soup_find is_main sp of Some c \<Rightarrow> Some (c, True) | None \<Rightarrow> None))"
    by (simp add: find_insertion_point_def split: option.splits)
  have "case find_insertion_point sp of
          None \<Rightarrow> r = Return False no_container_error \<and> w' = w
        | Some (c, fb) \<Rightarrow>
            stdout w' = (if fb then stdout w @ [fallback_warning] else stdout w)
            \<and> (\<forall>ok. r \<noteq> Return ok no_container_error)"
    using assms(5)
  proof (cases rule: add_blog_post_outcome)
    case not_found
    with assms show ?thesis by simp
  next
    case (is_directory e)
    with assms show ?thesis by simp
  next
    case (read_fault content e)
    with assms show ?thesis by simp
  next
    case (parse_fault content' e)
    with assms show ?thesis by simp
  next
    case (no_container content' sp')
    with assms show ?thesis by simp
  next
    case (allocation_raises content' sp' c fb e)
    with assms show ?thesis by (auto simp: located_def)
  next
    case (no_tag content' sp' c fb next_id)
    with assms show ?thesis
      by (auto simp: located_def no_tag_error_def no_container_error_def)
  next
    case (fragment_fault content' sp' c fb next_id e)
    with assms show ?thesis
      by (auto simp: located_def no_container_error_def)
  next
    case (no_article content' sp' c fb next_id fragment)
    with assms show ?thesis
      by (auto simp: located_def no_container_error_def)
  next
    case (write_back content' sp' p c fb next_id fragment q new_post_soup)
    from write_back(6) have m: "\<forall>ok. r \<noteq> Return ok no_container_error"
      using write_back_not_container_error by blast
    from write_back(6) have "stdout w' = stdout (if fb then print fallback_warning w else w)"
      by (cases rule: write_back_outcome) simp_all
    with m write_back(1) assms show ?thesis
      by (auto simp: located_def)
  qed
  then show ?thesis
    by (auto simp: fip soup_find_first split: option.splits)
qed

text \<open>The page whose \<open>main\<close> element has no \<open>id\<close>: the warning is printed and the post is added.\<close>

theorem container_lookup_witness:
  "soup_find is_main_blogPosts plain_doc = None
   \<and> soup_find is_main plain_doc = Some ([1], Tag ''main'' [] [Tag ''p'' [] [NavigableString ''Hello'']])
   \<and> (\<exists>msg. snd (add_blog_post example_lib no_faults example_world ''plain.html'' ''Hello'' ''A, b''
        ''World'' ''2 min read'' ''Jan 01, 2025'' ''hello'') = Return True msg)
   \<and> stdout (fst (add_blog_post example_lib no_faults example_world ''plain.html'' ''Hello'' ''A, b''
        ''World'' ''2 min read'' ''Jan 01, 2025'' ''hello'')) = [fallback_warning]"
proof -
  have h1: "''plain.html'' \<noteq> []" by simp
  have h2: "files example_world ''plain.html'' = Some (File plain_content)"
    by (simp add: example_world_def)
  have h3: "read_fault no_faults = None" by (simp add: no_faults_def)
  have h4: "html_parse example_lib plain_content = Inr plain_doc"
    by (simp add: example_lib_def plain_content_def example_content_def)
  have a: "soup_find is_main_blogPosts plain_doc = None"
    and b: "soup_find is_main plain_doc
      = Some ([1], Tag ''main'' [] [Tag ''p'' [] [NavigableString ''Hello'']])"
    by (simp_all add: plain_doc_def)
  have s: "stdout example_world = []" by (simp add: example_world_def)
  from container_lookup [OF h1 h2 h3 h4 plain_run] a b s
  have "stdout (fst (add_blog_post example_lib no_faults example_world ''plain.html'' ''Hello'' ''A, b''
        ''World'' ''2 min read'' ''Jan 01, 2025'' ''hello'')) = [fallback_warning]"
    unfolding plain_run by simp
  with a b show ?thesis by (simp add: plain_run)
qed




section \<open>The run of the git worker\<close>

lemma run_loop_started:
  "started (run_loop popen repo cmds)
   = takeWhile (\<lambda>c. exited_zero (popen repo c)) cmds
     @ take 1 (dropWhile (\<lambda>c. exited_zero (popen repo c)) cmds)"
  by (induction cmds) (auto simp: exited_zero_def split: proc.splits)

lemma run_loop_errors:
  "errors (run_loop popen repo cmds)
   = (case dropWhile (\<lambda>c. exited_zero (popen repo c)) cmds of
        [] \<Rightarrow> []
      | c # cs \<Rightarrow> [failure_of c (popen repo c)])"
  by (induction cmds) (auto simp: exited_zero_def failure_of_def split: proc.splits)

lemma run_loop_nonempty: "run_loop popen repo cmds \<noteq> []"
  by (cases cmds) simp_all

lemma run_loop_last:
  "last (run_loop popen repo cmds)
   = (case dropWhile (\<lambda>c. exited_zero (popen repo c)) cmds of
        [] \<Rightarrow> Finished
      | c # cs \<Rightarrow> Error (failure_of c (popen repo c)))"
  by (induction cmds)
     (auto simp: exited_zero_def failure_of_def run_loop_nonempty split: proc.splits)

lemma run_loop_finished:
  "Finished \<in> set (run_loop popen repo cmds)
   \<longleftrightarrow> dropWhile (\<lambda>c. exited_zero (popen repo c)) cmds = []"
  by (induction cmds) (auto simp: exited_zero_def split: proc.splits if_splits)

lemma run_loop_reports:
  "c \<in> set (started (run_loop popen repo cmds))
   \<Longrightarrow> sublist (Popen repo c # reports_of (popen repo c)) (run_loop popen repo cmds)"
proof (induction cmds)
  case Nil
  then show ?case by simp
next
  case (Cons cmd cmds)
  show ?case
  proof (cases "c = cmd")
    case True
    have "\<exists>ss. run_loop popen repo (cmd # cmds)
        = [Output (''Running: '' @ join '' '' cmd @ ''\<newline>'')]
          @ (Popen repo cmd # reports_of (popen repo cmd)) @ ss"
      by (cases "popen repo cmd") (simp_all add: reports_of_def)
    then show ?thesis unfolding True sublist_def by blast
  next
    case False
    with Cons.prems have "c \<in> set (started (run_loop popen repo cmds))"
      by (cases "popen repo cmd") (auto split: if_splits)
    then have s: "sublist (Popen repo c # reports_of (popen repo c)) (run_loop popen repo cmds)"
      by (rule Cons.IH)
    from False Cons.prems obtain out err where r: "popen repo cmd = Exited 0 out err"
      by (cases "popen repo cmd") (auto split: if_splits)
    have "run_loop popen repo (cmd # cmds)
        = (Output (''Running: '' @ join '' '' cmd @ ''\<newline>'') # Popen repo cmd
           # reports_of (popen repo cmd)) @ run_loop popen repo cmds"
      by (simp add: r reports_of_def)
    with s show ?thesis by (simp only: sublist_skip)
  qed
qed


text \<open>
  Claim C10. The worker has the three commands \<open>git add .\<close>, \<open>git commit -m <message>\<close> and
  \<open>git push -u origin main\<close>, in that order. The commands it starts are those that exit
  with status zero, up to and including the first one that does not (or that raises): a
  command is started only when all before it exited with zero, and none is started after
  a failure. On a failure there is exactly one error, the last event of the run, carrying
  the exit code of the failed command or the text of the raised fault; \<open>finished\<close> is
  emitted exactly when all three commands exit with zero. After each started command its
  standard output and then its standard error are reported, each when it is not empty.
\<close>

theorem git_worker_run:
  "cmds_of commit_msg =
     [[''git'', ''add'', ''.''], [''git'', ''commit'', ''-m'', commit_msg],
      [''git'', ''push'', ''-u'', ''origin'', ''main'']]
   \<and> started (run popen repo_path commit_msg)
       = takeWhile (\<lambda>c. exited_zero (popen repo_path c)) (cmds_of commit_msg)
         @ take 1 (dropWhile (\<lambda>c. exited_zero (popen repo_path c)) (cmds_of commit_msg))
   \<and> errors (run popen repo_path commit_msg)
       = (case dropWhile (\<lambda>c. exited_zero (popen repo_path c)) (cmds_of commit_msg) of
            [] \<Rightarrow> []
          | c # cs \<Rightarrow> [failure_of c (popen repo_path c)])
   \<and> last (run popen repo_path commit_msg)
       = (case dropWhile (\<lambda>c. exited_zero (popen repo_path c)) (cmds_of commit_msg) of
            [] \<Rightarrow> Finished
          | c # cs \<Rightarrow> Error (failure_of c (popen repo_path c)))
   \<and> (Finished \<in> set (run popen repo_path commit_msg)
        \<longleftrightarrow> dropWhile (\<lambda>c. exited_zero (popen repo_path c)) (cmds_of commit_msg) = [])
   \<and> (\<forall>c \<in> set (started (run popen repo_path commit_msg)).
         sublist (Popen repo_path c # reports_of (popen repo_path c))
           (run popen repo_path commit_msg))"
  unfolding run_def
  by (intro conjI ballI run_loop_started run_loop_errors run_loop_last run_loop_finished
      run_loop_reports) (simp_all add: cmds_of_def)

theorem git_worker_run_witness:
  "started (run example_popen ''/repo'' ''msg'')
     = [[''git'', ''add'', ''.''], [''git'', ''commit'', ''-m'', ''msg'']]
   \<and> errors (run example_popen ''/repo'' ''msg'')
     = [''Command git commit -m msg failed with exit code 1'']
   \<and> sublist [Popen ''/repo'' [''git'', ''commit'', ''-m'', ''msg''],
               Output ''nothing to commit, working tree clean'']
       (run example_popen ''/repo'' ''msg'')"
proof -
  note t = git_worker_run [of "''msg''" example_popen "''/repo''"]
  from t have st: "started (run example_popen ''/repo'' ''msg'')
      = [[''git'', ''add'', ''.''], [''git'', ''commit'', ''-m'', ''msg'']]"
    by (simp add: cmds_of_def example_popen_def exited_zero_def)
  from t have er: "errors (run example_popen ''/repo'' ''msg'')
      = [''Command git commit -m msg failed with exit code 1'']"
    by (simp add: cmds_of_def example_popen_def exited_zero_def failure_of_def
        str_int_def str_nat.simps digit_char_def)
  from t have "\<forall>c \<in> set (started (run example_popen ''/repo'' ''msg'')).
      sublist (Popen ''/repo'' c # reports_of (example_popen ''/repo'' c))
        (run example_popen ''/repo'' ''msg'')"
    by blast
  with st have "sublist (Popen ''/repo'' [''git'', ''commit'', ''-m'', ''msg'']
        # reports_of (example_popen ''/repo'' [''git'', ''commit'', ''-m'', ''msg'']))
      (run example_popen ''/repo'' ''msg'')"
    by simp
  then have "sublist [Popen ''/repo'' [''git'', ''commit'', ''-m'', ''msg''],
               Output ''nothing to commit, working tree clean'']
       (run example_popen ''/repo'' ''msg'')"
    by (simp add: reports_of_def example_popen_def)
  with st er show ?thesis by simp
qed

section \<open>The splice\<close>

lemma node_at_Suc [simp]: "node_at (x # ns) (Suc i # q) = node_at ns (i # q)"
  by (cases q) simp_all

lemma node_at_sibling:
  "node_at ns p = Some n \<Longrightarrow> sibling (p, n) = (p', n') \<Longrightarrow> node_at (x # ns) p' = Some n'"
  by (cases p) auto

lemma node_at_child:
  "node_at cs p = Some n \<Longrightarrow> node_at (Tag nm ats cs # ns) (0 # p) = Some n"
  by (cases p) auto

text \<open>What \<open>find\<close> returns is the node at the path it returns, and it matches.\<close>

lemma soup_find_node_at:
  "soup_find P ns = Some (p, n) \<Longrightarrow> node_at ns p = Some n \<and> P n"
proof (induction P ns arbitrary: p n rule: soup_find.induct)
  case (1 P)
  then show ?case by simp
next
  case (2 P nm ats cs ns)
  show ?case
  proof (cases "P (Tag nm ats cs)")
    case True
    with 2(3) show ?thesis by auto
  next
    case False
    note np = this
    show ?thesis
    proof (cases "soup_find P cs")
      case (Some a)
      then obtain p' n' where a: "soup_find P cs = Some (p', n')" by (cases a) auto
      with 2(3) np have e: "p = 0 # p'" "n = n'" by auto
      from 2(1) [OF np a] have "node_at cs p' = Some n'" "P n'" by auto
      then show ?thesis unfolding e by (simp add: node_at_child)
    next
      case None
      with 2(3) np obtain r where r: "soup_find P ns = Some r" "sibling r = (p, n)" by auto
      obtain p' n' where pn: "r = (p', n')" by (cases r)
      with 2(2) [OF np None] r have i: "node_at ns p' = Some n'" "P n'" by auto
      from i(1) r(2) pn have "node_at (Tag nm ats cs # ns) p = Some n"
        by (intro node_at_sibling) auto
      moreover from r(2) pn have "n = n'" by (cases p') auto
      ultimately show ?thesis using i by simp
    qed
  qed
next
  case (3 P s ns)
  show ?case
  proof (cases "P (NavigableString s)")
    case True
    with 3(2) show ?thesis by auto
  next
    case False
    with 3(2) obtain r where r: "soup_find P ns = Some r" "sibling r = (p, n)" by auto
    obtain p' n' where pn: "r = (p', n')" by (cases r)
    with 3(1) [OF False] r have i: "node_at ns p' = Some n'" "P n'" by auto
    from i(1) r(2) pn have "node_at (NavigableString s # ns) p = Some n"
      by (intro node_at_sibling) auto
    moreover from r(2) pn have "n = n'" by (cases p') auto
    ultimately show ?thesis using i by simp
  qed
qed


lemma node_at_Nil [simp]: "node_at [] p = None"
  by (induction "[] :: node list" p rule: node_at.induct) simp_all

lemma node_at_list_update_other:
  "k \<noteq> i \<Longrightarrow> node_at (ns[i := x]) (k # r) = node_at ns (k # r)"
  by (cases r) simp_all

lemma node_at_list_update_same:
  "i < length ns \<Longrightarrow> node_at (ns[i := x]) (i # j # r) = node_at (contents x) (j # r)"
  by simp

lemma length_update_at [simp]: "length (update_at f p ns) = length ns"
  by (induction f p ns rule: update_at.induct) simp_all

text \<open>The update replaces the node at the path.\<close>

lemma node_at_update_at:
  "node_at ns p = Some n \<Longrightarrow> node_at (update_at f p ns) p = Some (f n)"
proof (induction f p ns rule: update_at.induct)
  case (1 f ns)
  then show ?case by simp
next
  case (2 f i ns)
  then show ?case by (auto split: if_splits)
next
  case (3 f i j p ns)
  from 3(2) have i: "i < length ns" and c: "node_at (contents (ns ! i)) (j # p) = Some n"
    by (auto split: if_splits)
  from c obtain nm ats cs where t: "ns ! i = Tag nm ats cs" by (cases "ns ! i") auto
  with c have "node_at cs (j # p) = Some n" by simp
  with 3(1) [OF i t] have "node_at (update_at f (j # p) cs) (j # p) = Some (f n)" by simp
  with i t show ?case by simp
qed

text \<open>A node that is neither above nor below the path is untouched, with all that is below it.\<close>

lemma node_at_update_at_frame:
  "\<not> prefix p q \<Longrightarrow> \<not> prefix q p \<Longrightarrow> node_at (update_at f p ns) q = node_at ns q"
proof (induction f p ns arbitrary: q rule: update_at.induct)
  case (1 f ns)
  then show ?case by simp
next
  case (2 f i ns)
  then obtain k r where q: "q = k # r" "k \<noteq> i" by (cases q) auto
  then show ?case by (simp add: node_at_list_update_other)
next
  case (3 f i j p ns)
  from 3(2,3) obtain k r where q: "q = k # r" by (cases q) auto
  show ?case
  proof (cases "k = i")
    case False
    with q show ?thesis by (simp add: node_at_list_update_other)
  next
    case True
    with 3(2,3) q obtain j' r' where r: "r = j' # r'" by (cases r) auto
    from 3(2,3) q True have np: "\<not> prefix (j # p) r" "\<not> prefix r (j # p)" by auto
    show ?thesis
    proof (cases "i < length ns")
      case False
      then show ?thesis by simp
    next
      case i: True
      show ?thesis
      proof (cases "ns ! i")
        case (Tag nm ats cs)
        from 3(1) [OF i Tag np] have "node_at (update_at f (j # p) cs) r = node_at cs r" .
        with i Tag q True r show ?thesis by simp
      next
        case (NavigableString s)
        with i q True r show ?thesis by simp
      qed
    qed
  qed
qed


text \<open>
  When the update keeps the label of the node, every node that is not below the path keeps
  its label: the nodes above the path change only in what is below them.
\<close>

lemma node_at_update_at_label:
  "\<forall>n. label (f n) = label n \<Longrightarrow> \<not> strict_prefix p q
    \<Longrightarrow> map_option label (node_at (update_at f p ns) q) = map_option label (node_at ns q)"
proof (induction f p ns arbitrary: q rule: update_at.induct)
  case (1 f ns)
  then show ?case by simp
next
  case (2 g i ns)
  show ?case
  proof (cases q)
    case Nil
    then show ?thesis by simp
  next
    case (Cons k r)
    show ?thesis
    proof (cases "k = i")
      case False
      with Cons show ?thesis by (simp add: node_at_list_update_other)
    next
      case True
      with Cons 2(2) have "r = []" by (cases r) auto
      with Cons True 2(1) show ?thesis by simp
    qed
  qed
next
  case (3 g i j p ns)
  show ?case
  proof (cases q)
    case Nil
    then show ?thesis by simp
  next
    case (Cons k r)
    show ?thesis
    proof (cases "k = i")
      case False
      with Cons show ?thesis by (simp add: node_at_list_update_other)
    next
      case True
      note k = this
      show ?thesis
      proof (cases "i < length ns")
        case False
        then show ?thesis by simp
      next
        case i: True
        show ?thesis
        proof (cases "ns ! i")
          case (NavigableString s)
          with i Cons k show ?thesis by (cases r) simp_all
        next
          case (Tag nm ats cs)
          show ?thesis
          proof (cases r)
            case Nil
            with i Cons k Tag show ?thesis by simp
          next
            case r: (Cons j' r')
            from 3(3) Cons k have "\<not> strict_prefix (j # p) r" by auto
            from 3(1) [OF i Tag 3(2) this]
            have "map_option label (node_at (update_at g (j # p) cs) r)
                = map_option label (node_at cs r)" .
            with i Cons k Tag r show ?thesis by simp
          qed
        qed
      qed
    qed
  qed
qed

lemma descendants_append: "descendants (xs @ ys) = descendants xs @ descendants ys"
  by (induction xs rule: descendants.induct) simp_all

lemma labels_append: "labels (xs @ ys) = labels xs @ labels ys"
  by (simp add: labels_def descendants_append)

lemma labels_Tag: "labels (Tag nm ats cs # ns) = Tag nm ats [] # labels cs @ labels ns"
  by (simp add: labels_def)

text \<open>
  In document order, new children at the front of a tag come right after the label of
  that tag, and the rest of the document reads as before.
\<close>

lemma labels_update_at_prepend:
  "node_at ns p = Some (Tag nm ats cs)
   \<Longrightarrow> \<exists>xs ys. labels ns = xs @ Tag nm ats [] # ys
         \<and> labels (update_at (prepend new) p ns) = xs @ Tag nm ats [] # labels new @ ys"
proof (induction ns p rule: node_at.induct)
  case (1 ns)
  then show ?case by simp
next
  case (2 ns i)
  then have i: "i < length ns" and t: "ns ! i = Tag nm ats cs" by (auto split: if_splits)
  from i t have a: "ns = take i ns @ Tag nm ats cs # drop (Suc i) ns"
    by (metis id_take_nth_drop)
  from i t have b: "update_at (prepend new) [i] ns
      = take i ns @ Tag nm ats (new @ cs) # drop (Suc i) ns"
    by (simp add: upd_conv_take_nth_drop)
  have "labels ns = labels (take i ns) @ Tag nm ats [] # (labels cs @ labels (drop (Suc i) ns))"
    by (subst a) (simp add: labels_append labels_Tag)
  moreover have "labels (update_at (prepend new) [i] ns)
      = labels (take i ns) @ Tag nm ats [] # labels new @ (labels cs @ labels (drop (Suc i) ns))"
    by (simp only: b) (simp add: labels_append labels_Tag)
  ultimately show ?case by blast
next
  case (3 ns i j p)
  from 3(2) have i: "i < length ns" and c: "node_at (contents (ns ! i)) (j # p) = Some (Tag nm ats cs)"
    by (auto split: if_splits)
  from c obtain nm' ats' cs' where t: "ns ! i = Tag nm' ats' cs'" by (cases "ns ! i") auto
  with c have c': "node_at (contents (ns ! i)) (j # p) = Some (Tag nm ats cs)" by simp
  from 3(1) [OF i c'] t obtain xs ys where
    x: "labels cs' = xs @ Tag nm ats [] # ys"
    and y: "labels (update_at (prepend new) (j # p) cs') = xs @ Tag nm ats [] # labels new @ ys"
    by auto
  from i t have a: "ns = take i ns @ Tag nm' ats' cs' # drop (Suc i) ns"
    by (metis id_take_nth_drop)
  from i t have b: "update_at (prepend new) (i # j # p) ns
      = take i ns @ Tag nm' ats' (update_at (prepend new) (j # p) cs') # drop (Suc i) ns"
    by (simp add: upd_conv_take_nth_drop)
  have "labels ns
      = (labels (take i ns) @ Tag nm' ats' [] # xs) @ Tag nm ats [] # (ys @ labels (drop (Suc i) ns))"
    by (subst a) (simp add: labels_append labels_Tag x)
  moreover have "labels (update_at (prepend new) (i # j # p) ns)
      = (labels (take i ns) @ Tag nm' ats' [] # xs) @ Tag nm ats [] # labels new
        @ (ys @ labels (drop (Suc i) ns))"
    by (simp only: b) (simp add: labels_append labels_Tag y)
  ultimately show ?case by blast
qed

lemma update_at_comp: "update_at f p (update_at g p ns) = update_at (\<lambda>n. f (g n)) p ns"
proof (induction g p ns rule: update_at.induct)
  case (1 g ns)
  then show ?case by simp
next
  case (2 g i ns)
  then show ?case by simp
next
  case (3 g i j p ns)
  show ?case
  proof (cases "i < length ns")
    case False
    then show ?thesis by simp
  next
    case True
    with 3 show ?thesis by (cases "ns ! i") simp_all
  qed
qed

lemma insert0_twice: "insert0 a (insert0 b n) = prepend [a, b] n"
  by (cases n) simp_all


lemma find_insertion_point_main:
  assumes "find_insertion_point sp = Some ((p, c), fb)"
  shows "node_at sp p = Some c \<and> (\<exists>ats cs. c = Tag ''main'' ats cs)"
proof -
  from assms have "soup_find is_main_blogPosts sp = Some (p, c) \<or> soup_find is_main sp = Some (p, c)"
    by (auto simp: find_insertion_point_def split: option.splits)
  then have "node_at sp p = Some c \<and> (is_main_blogPosts c \<or> is_main c)"
    using soup_find_node_at by blast
  then show ?thesis by (cases c) auto
qed

lemma label_entry: "is_entry (label n) = is_entry n" "get (label n) k d = get n k d"
  by (cases n; simp)+

lemma entry_ids_labels:
  "entry_ids sp = map (\<lambda>e. get e ''id'' []) (filter is_entry (labels sp))"
  by (simp add: entry_ids_def find_all_def labels_def filter_map comp_def label_entry)

lemma splice_tree:
  fixes ws :: string and new :: node
  assumes "node_at sp p = Some (Tag nm ats cs)"
  defines "sp' \<equiv> update_at (insert0 (NavigableString ws)) p (update_at (insert0 new) p sp)"
  shows "node_at sp' p = Some (Tag nm ats (NavigableString ws # new # cs))"
    and "\<forall>r. \<not> prefix p r \<and> \<not> prefix r p \<longrightarrow> node_at sp' r = node_at sp r"
    and "\<forall>r. \<not> strict_prefix p r
          \<longrightarrow> map_option label (node_at sp' r) = map_option label (node_at sp r)"
    and "\<exists>xs ys. labels sp = xs @ Tag nm ats [] # ys
          \<and> labels sp' = xs @ Tag nm ats [] # labels [NavigableString ws, new] @ ys"
    and "\<exists>before after. entry_ids sp = before @ after
          \<and> entry_ids sp' = before @ entry_ids [NavigableString ws, new] @ after"
proof -
  have sp': "sp' = update_at (prepend [NavigableString ws, new]) p sp"
    by (simp add: sp'_def update_at_comp insert0_twice)
  from node_at_update_at [OF assms(1), of "prepend [NavigableString ws, new]"]
  show "node_at sp' p = Some (Tag nm ats (NavigableString ws # new # cs))"
    by (simp add: sp')
  show "\<forall>r. \<not> prefix p r \<and> \<not> prefix r p \<longrightarrow> node_at sp' r = node_at sp r"
    by (simp add: sp' node_at_update_at_frame)
  have "\<forall>n. label (prepend [NavigableString ws, new] n) = label n"
  proof
    fix n show "label (prepend [NavigableString ws, new] n) = label n" by (cases n) simp_all
  qed
  then show "\<forall>r. \<not> strict_prefix p r
          \<longrightarrow> map_option label (node_at sp' r) = map_option label (node_at sp r)"
    by (simp add: sp' node_at_update_at_label)
  from labels_update_at_prepend [OF assms(1), of "[NavigableString ws, new]"]
  obtain xs ys where l: "labels sp = xs @ Tag nm ats [] # ys"
    "labels sp' = xs @ Tag nm ats [] # labels [NavigableString ws, new] @ ys"
    unfolding sp' by blast
  then show "\<exists>xs ys. labels sp = xs @ Tag nm ats [] # ys
          \<and> labels sp' = xs @ Tag nm ats [] # labels [NavigableString ws, new] @ ys"
    by blast
  let ?ids = "\<lambda>ls. map (\<lambda>e. get e ''id'' []) (filter is_entry ls)"
  have "entry_ids sp = ?ids (xs @ [Tag nm ats []]) @ ?ids ys"
    by (simp add: entry_ids_labels l)
  moreover have "entry_ids sp' = ?ids (xs @ [Tag nm ats []])
      @ entry_ids [NavigableString ws, new] @ ?ids ys"
    by (simp add: entry_ids_labels l)
  ultimately show "\<exists>before after. entry_ids sp = before @ after
          \<and> entry_ids sp' = before @ entry_ids [NavigableString ws, new] @ after"
    by blast
qed


text \<open>
  Claim C2. After a successful insertion the file holds the serialization of a tree \<open>sp'\<close>
  in which the container, at the same path \<open>p\<close> as in the parsed document \<open>sp\<close>, has as its
  contents the whitespace string, then the new post, then the contents it had before, in
  their order. Every node that is neither above nor below the container is the same in
  both trees, with all that is below it; every node above the container, and the container
  itself, keeps its name and its attributes. Read in document order, \<open>sp'\<close> is \<open>sp\<close> with
  the whitespace string and the new post put right after the start of the container, so
  the identifiers of the entries of \<open>sp\<close> are all there in \<open>sp'\<close>, in the same order.
\<close>

theorem insertion_frame:
  assumes "add_blog_post l env w path title tags_str description read_time date_str post_filename
    = (w', Return True msg)"
  shows "\<exists>content sp p ats cs fb next_id fragment q new_post_soup sp' out.
      files w path = Some (File content) \<and> html_parse l content = Inr sp
    \<and> find_insertion_point sp = Some ((p, Tag ''main'' ats cs), fb)
    \<and> node_at sp p = Some (Tag ''main'' ats cs)
    \<and> find_next_post_id (int_max_str_digits l) sp = Inr next_id
    \<and> html_parse l (new_post_html_str_of next_id title (tags_list_of tags_str)
          description read_time date_str post_filename) = Inr fragment
    \<and> soup_find is_article fragment = Some (q, new_post_soup)
    \<and> prettify l sp' = Inr out \<and> files w' path = Some (File out)
    \<and> node_at sp' p
        = Some (Tag ''main'' ats (NavigableString ''\<newline>      '' # new_post_soup # cs))
    \<and> (\<forall>r. \<not> prefix p r \<and> \<not> prefix r p \<longrightarrow> node_at sp' r = node_at sp r)
    \<and> (\<forall>r. \<not> strict_prefix p r
          \<longrightarrow> map_option label (node_at sp' r) = map_option label (node_at sp r))
    \<and> (\<exists>xs ys. labels sp = xs @ Tag ''main'' ats [] # ys
          \<and> labels sp' = xs @ Tag ''main'' ats []
              # labels [NavigableString ''\<newline>      '', new_post_soup] @ ys)
    \<and> (\<exists>before after. entry_ids sp = before @ after
          \<and> entry_ids sp'
              = before @ entry_ids [NavigableString ''\<newline>      '', new_post_soup] @ after)"
  using assms
proof (cases rule: add_blog_post_outcome)
  case (write_back content sp p c fb next_id fragment q new_post_soup)
  let ?sp' = "update_at (insert0 (NavigableString ''\<newline>      '')) p
    (update_at (insert0 new_post_soup) p sp)"
  from write_back(1) have f: "files w path = Some (File content)" "html_parse l content = Inr sp"
    and fip: "find_insertion_point sp = Some ((p, c), fb)"
    by (simp_all add: located_def)
  from find_insertion_point_main [OF fip] obtain ats cs where
    c: "c = Tag ''main'' ats cs" and n: "node_at sp p = Some (Tag ''main'' ats cs)"
    by auto
  from write_back(6) obtain out where
    o: "prettify l ?sp' = Inr out" "files w' path = Some (File out)"
    by (cases rule: write_back_outcome) simp_all
  note t = splice_tree [OF n, of "''\<newline>      ''" new_post_soup]
  from f fip [unfolded c] n write_back(2,4,5) o t show ?thesis by blast
qed simp_all


theorem insertion_frame_witness:
  "\<exists>sp' new_post_soup.
      prettify example_lib sp' = Inr ''<!-- the page with the new post -->''
    \<and> node_at sp' [0, 0, 0]
        = Some (Tag ''main'' [(''id'', ''blogPosts'')]
            [NavigableString ''\<newline>      '', new_post_soup,
             Tag ''article'' [(''class'', ''post-card''), (''id'', ''post1'')] []])"
proof -
  from insertion_frame [OF example_run] obtain content sp p ats cs fb new_post_soup sp' out where
    f: "files example_world ''blog.html'' = Some (File content)"
    and h: "html_parse example_lib content = Inr sp"
    and fip: "find_insertion_point sp = Some ((p, Tag ''main'' ats cs), fb)"
    and o: "prettify example_lib sp' = Inr out"
    and n: "node_at sp' p
        = Some (Tag ''main'' ats (NavigableString ''\<newline>      '' # new_post_soup # cs))"
    by blast
  from f have "content = example_content" by (simp add: example_world_def)
  with h have "sp = example_doc" by (simp add: example_lib_def)
  with fip have "p = [0, 0, 0]" "ats = [(''id'', ''blogPosts'')]"
    "cs = [Tag ''article'' [(''class'', ''post-card''), (''id'', ''post1'')] []]"
    by (simp_all add: find_insertion_point_def example_doc_def)
  moreover from o have "out = ''<!-- the page with the new post -->''"
    by (simp add: example_lib_def)
  ultimately show ?thesis using o n by blast
qed

end
